theory Spec2Isabelle
  imports Main "HOL-Library.Sublist"
begin

section \<open>Record model\<close>

text \<open>
  A note as the SQLite table of \<^verbatim>\<open>adapters/sqliteAdapter.js\<close> types it:
  \<^verbatim>\<open>id TEXT PRIMARY KEY, uid TEXT, title TEXT, body TEXT, createdAt INTEGER,
  updatedAt INTEGER, date INTEGER, time TEXT, tags TEXT, isDeleted INTEGER\<close>.
  JavaScript's \<^verbatim>\<open>null\<close> is \<open>None\<close>; timestamps are integers (milliseconds);
  strings are lists of characters, whose letters are the ASCII ones.
  The field \<^verbatim>\<open>id\<close> is called \<open>nid\<close>.
\<close>

record Note =
  nid :: string
  uid :: "string option"
  title :: string
  body :: string
  createdAt :: int
  updatedAt :: int
  date :: "int option"
  time :: "string option"
  tags :: "string list"
  isDeleted :: bool

text \<open>
  What a client sends for one note (\<^verbatim>\<open>NoteInput\<close>): every field may be missing. The
  \<^verbatim>\<open>tags\<close> field is an array, a falsy value, or some other value of which the code takes
  \<^verbatim>\<open>String(body.tags)\<close>; \<^verbatim>\<open>isDeleted\<close> is read for its truthiness only.
\<close>

datatype raw_tags = TagsArray "string list" | TagsFalsy | TagsText string

record raw_note =
  raw_id :: "string option"
  raw_uid :: "string option"
  raw_title :: "string option"
  raw_body :: "string option"
  raw_createdAt :: "int option"
  raw_updatedAt :: "int option"
  raw_date :: "int option"
  raw_time :: "string option"
  raw_tags :: raw_tags
  raw_isDeleted :: bool

text \<open>The decoded token that \<^verbatim>\<open>middleware/auth.js\<close> puts in \<^verbatim>\<open>req.user\<close>.\<close>

record user =
  user_uid :: "string option"

text \<open>
  The values that \<^verbatim>\<open>nanoid()\<close> and the two calls of \<^verbatim>\<open>Date.now()\<close> would return while
  one note is normalised.
\<close>

record ambient =
  nanoid :: string
  now_createdAt :: int
  now_updatedAt :: int

text \<open>The filter object passed to \<^verbatim>\<open>find\<close>; a missing field is \<open>None\<close>.\<close>

record filters =
  f_q :: "string option"
  f_dateFrom :: "int option"
  f_dateTo :: "int option"
  f_time :: "string option"
  f_tags :: "string list option"
  f_updatedAfter :: "int option"
  f_includeDeleted :: bool
  f_uid :: "string option"

section \<open>JavaScript values and strings\<close>

text \<open>Truthiness of a string or number that may be missing: \<^verbatim>\<open>''\<close> and \<^verbatim>\<open>0\<close> are falsy.\<close>

definition truthy_str :: "string option \<Rightarrow> bool" where
  "truthy_str v = (case v of None \<Rightarrow> False | Some s \<Rightarrow> s \<noteq> [])"

definition truthy_num :: "int option \<Rightarrow> bool" where
  "truthy_num v = (case v of None \<Rightarrow> False | Some k \<Rightarrow> k \<noteq> 0)"

text \<open>\<^verbatim>\<open>a ?? b\<close>\<close>

definition nullish :: "'a option \<Rightarrow> 'a \<Rightarrow> 'a" where
  "nullish v d = (case v of None \<Rightarrow> d | Some x \<Rightarrow> x)"

text \<open>\<^verbatim>\<open>String.prototype.toLowerCase\<close> on ASCII letters.\<close>

definition lower_char :: "char \<Rightarrow> char" where
  "lower_char c =
     (if (65::nat) \<le> of_char c \<and> of_char c \<le> (90::nat)
      then char_of (of_char c + (32::nat)) else c)"

definition toLowerCase :: "string \<Rightarrow> string" where
  "toLowerCase s = map lower_char s"

text \<open>\<^verbatim>\<open>s.includes(q)\<close>: some suffix of \<open>s\<close> starts with \<open>q\<close>.\<close>

fun str_includes :: "string \<Rightarrow> string \<Rightarrow> bool" where
  "str_includes [] q = (q = [])"
| "str_includes (c # cs) q = (prefix q (c # cs) \<or> str_includes cs q)"

text \<open>\<^verbatim>\<open>s.split(',')\<close>\<close>

fun split_comma :: "string \<Rightarrow> string list" where
  "split_comma [] = [[]]"
| "split_comma (c # cs) =
     (if c = CHR '','' then [] # split_comma cs
      else (case split_comma cs of [] \<Rightarrow> [[c]] | w # ws \<Rightarrow> (c # w) # ws))"

text \<open>\<^verbatim>\<open>s.trim()\<close>: white space and line terminators among the 8-bit characters.\<close>

definition is_space :: "char \<Rightarrow> bool" where
  "is_space c = (of_char c \<in> {9, 10, 11, 12, 13, 32, 160 :: nat})"

definition trim :: "string \<Rightarrow> string" where
  "trim s = rev (dropWhile is_space (rev (dropWhile is_space s)))"

text \<open>
  \<^verbatim>\<open>JSON.stringify\<close> of an array of strings, the text kept in the column \<^verbatim>\<open>tags\<close>.
\<close>

definition hex_digit :: "nat \<Rightarrow> char" where
  "hex_digit k = (if k < 10 then char_of (48 + k) else char_of (87 + k))"

definition json_escape :: "char \<Rightarrow> string" where
  "json_escape c =
     (let k = (of_char c :: nat) in
      if c = CHR 0x22 then [CHR 0x5C, CHR 0x22]
      else if c = CHR 0x5C then [CHR 0x5C, CHR 0x5C]
      else if k = 8 then [CHR 0x5C, CHR ''b'']
      else if k = 12 then [CHR 0x5C, CHR ''f'']
      else if k = 10 then [CHR 0x5C, CHR ''n'']
      else if k = 13 then [CHR 0x5C, CHR ''r'']
      else if k = 9 then [CHR 0x5C, CHR ''t'']
      else if k < 32 then [CHR 0x5C, CHR ''u'', CHR ''0'', CHR ''0'', hex_digit (k div 16), hex_digit (k mod 16)]
      else [c])"

definition json_string :: "string \<Rightarrow> string" where
  "json_string s = [CHR 0x22] @ concat (map json_escape s) @ [CHR 0x22]"

fun join_comma :: "string list \<Rightarrow> string" where
  "join_comma [] = []"
| "join_comma [s] = s"
| "join_comma (s # t # ts) = s @ [CHR '',''] @ join_comma (t # ts)"

definition JSON_stringify_tags :: "string list \<Rightarrow> string" where
  "JSON_stringify_tags ts = [CHR ''[''] @ join_comma (map json_string ts) @ [CHR '']'']"

text \<open>
  SQLite's \<^verbatim>\<open>LIKE\<close> with its defaults: \<^verbatim>\<open>%\<close> stands for any sequence of characters,
  \<^verbatim>\<open>_\<close> for any one character, ASCII letters match whatever their case.
\<close>

fun sql_like :: "string \<Rightarrow> string \<Rightarrow> bool" where
  "sql_like [] s = (s = [])"
| "sql_like (p # ps) [] = (p = CHR ''%'' \<and> sql_like ps [])"
| "sql_like (p # ps) (c # cs) =
     (if p = CHR ''%'' then sql_like ps (c # cs) \<or> sql_like (p # ps) cs
      else if p = CHR ''_'' then sql_like ps cs
      else lower_char p = lower_char c \<and> sql_like ps cs)"

section \<open>Reconciler: \<^verbatim>\<open>matchesFilters\<close> of \<^verbatim>\<open>adapters/dualAdapter.js\<close>\<close>

text \<open>The loop over \<^verbatim>\<open>filters.tags\<close>: the first tag the note lacks ends it with \<^verbatim>\<open>false\<close>.\<close>

fun tags_loop :: "string list \<Rightarrow> string list \<Rightarrow> bool" where
  "tags_loop [] nt = True"
| "tags_loop (t # ts) nt = (if t \<notin> set nt then False else tags_loop ts nt)"

text \<open>
  Each line of the source is one \<open>if\<close> that returns \<^verbatim>\<open>false\<close>; a filter field takes part
  only when it is truthy. \<^verbatim>\<open>note.date && ...\<close> is falsy for a missing date and for date 0.
\<close>

definition matchesFilters :: "Note \<Rightarrow> filters \<Rightarrow> bool" where
  "matchesFilters n f =
     (if \<not> f_includeDeleted f \<and> isDeleted n then False
      else if truthy_str (f_uid f) \<and> uid n \<noteq> f_uid f then False
      else if (case f_q f of None \<Rightarrow> False
               | Some s \<Rightarrow> s \<noteq> [] \<and>
                   \<not> (str_includes (toLowerCase (title n)) (toLowerCase s) \<or>
                      str_includes (toLowerCase (body n)) (toLowerCase s))) then False
      else if (case f_updatedAfter f of None \<Rightarrow> False
               | Some t \<Rightarrow> t \<noteq> 0 \<and> updatedAt n \<le> t) then False
      else if (case f_dateFrom f of None \<Rightarrow> False
               | Some d \<Rightarrow> d \<noteq> 0 \<and>
                   \<not> (case date n of None \<Rightarrow> False | Some x \<Rightarrow> x \<noteq> 0 \<and> x \<ge> d)) then False
      else if (case f_dateTo f of None \<Rightarrow> False
               | Some d \<Rightarrow> d \<noteq> 0 \<and>
                   \<not> (case date n of None \<Rightarrow> False | Some x \<Rightarrow> x \<noteq> 0 \<and> x \<le> d)) then False
      else if truthy_str (f_time f) \<and> time n \<noteq> f_time f then False
      else if (case f_tags f of None \<Rightarrow> False
               | Some ts \<Rightarrow> ts \<noteq> [] \<and> \<not> tags_loop ts (tags n)) then False
      else True)"

section \<open>Stores and their failures\<close>

text \<open>
  The three tiers: the rows of the SQLite table \<^verbatim>\<open>notes\<close> in insertion order, the files
  of \<^verbatim>\<open>notes_files\<close> (one per id), and the documents of the Firestore collection
  \<^verbatim>\<open>notes\<close>, \<open>None\<close> when \<^verbatim>\<open>getFirestoreSafe\<close> returns \<^verbatim>\<open>null\<close>. A document is kept
  under the id of the note it holds, as every \<^verbatim>\<open>doc(note.id).set(note)\<close> of the
  source does.
\<close>

record stores =
  primary :: "Note list"
  mirror :: "Note list"
  remote :: "Note list option"

text \<open>
  Which calls of the database, the file system and Firestore reject. Each is decided by
  the argument of the call.
\<close>

record faults =
  db_get_fails :: "string \<Rightarrow> bool"
  db_run_fails :: "Note \<Rightarrow> bool"
  db_all_fails :: "filters \<Rightarrow> bool"
  fs_writeFile_fails :: "Note \<Rightarrow> bool"
  fire_get_fails :: "string \<Rightarrow> bool"
  fire_set_fails :: "Note \<Rightarrow> bool"
  fire_query_fails :: "filters \<Rightarrow> bool"

datatype error = SqliteError | TypeError

text \<open>Overwriting the file or document of a note, or adding it.\<close>

definition put_by_id :: "Note \<Rightarrow> Note list \<Rightarrow> Note list" where
  "put_by_id n xs =
     (if nid n \<in> set (map nid xs) then map (\<lambda>r. if nid r = nid n then n else r) xs
      else xs @ [n])"

text \<open>\<^verbatim>\<open>Array.prototype.sort\<close> with \<^verbatim>\<open>(a, b) => (b.updatedAt || 0) - (a.updatedAt || 0)\<close>:
  a stable sort, greatest \<^verbatim>\<open>updatedAt\<close> first. \<^verbatim>\<open>ORDER BY updatedAt DESC\<close> is taken to
  be the same sort of the rows in table order.\<close>

definition sort_updatedAt_desc :: "Note list \<Rightarrow> Note list" where
  "sort_updatedAt_desc xs = sort_key (\<lambda>n. - updatedAt n) xs"

subsection \<open>\<^verbatim>\<open>adapters/sqliteAdapter.js\<close>\<close>

definition sqlite_get :: "faults \<Rightarrow> string \<Rightarrow> Note list \<Rightarrow> error + Note option" where
  "sqlite_get F i rows =
     (if db_get_fails F i then Inl SqliteError else Inr (find (\<lambda>r. nid r = i) rows))"

text \<open>The parameters of the statement: \<^verbatim>\<open>note.uid || null\<close> stores an empty uid as NULL.\<close>

definition row_of :: "Note \<Rightarrow> Note" where
  "row_of n = n\<lparr>uid := (if truthy_str (uid n) then uid n else None)\<rparr>"

definition sqlite_upsert :: "faults \<Rightarrow> Note \<Rightarrow> Note list \<Rightarrow> error + Note list" where
  "sqlite_upsert F n rows =
     (case sqlite_get F (nid n) rows of
        Inl e \<Rightarrow> Inl e
      | Inr (Some existing) \<Rightarrow>
          if db_run_fails F n then Inl SqliteError
          else Inr (map (\<lambda>r. if nid r = nid n then row_of n else r) rows)
      | Inr None \<Rightarrow>
          if db_run_fails F n then Inl SqliteError
          else Inr (rows @ [row_of n]))"

text \<open>The \<^verbatim>\<open>WHERE\<close> clause that \<^verbatim>\<open>find\<close> builds; a comparison with NULL is false.\<close>

definition sqlite_where :: "filters \<Rightarrow> Note \<Rightarrow> bool" where
  "sqlite_where f r =
     ((if truthy_str (f_uid f) then uid r = f_uid f else True) \<and>
      (if \<not> f_includeDeleted f then \<not> isDeleted r else True) \<and>
      (case f_q f of None \<Rightarrow> True
       | Some s \<Rightarrow> if s \<noteq> [] then
             sql_like (''%'' @ toLowerCase s @ ''%'') (toLowerCase (title r)) \<or>
             sql_like (''%'' @ toLowerCase s @ ''%'') (toLowerCase (body r))
           else True) \<and>
      (case f_updatedAfter f of None \<Rightarrow> True
       | Some t \<Rightarrow> if t \<noteq> 0 then updatedAt r > t else True) \<and>
      (case f_dateFrom f of None \<Rightarrow> True
       | Some d \<Rightarrow> if d \<noteq> 0 then (case date r of None \<Rightarrow> False | Some x \<Rightarrow> x \<ge> d) else True) \<and>
      (case f_dateTo f of None \<Rightarrow> True
       | Some d \<Rightarrow> if d \<noteq> 0 then (case date r of None \<Rightarrow> False | Some x \<Rightarrow> x \<le> d) else True) \<and>
      (if truthy_str (f_time f) then time r = f_time f else True) \<and>
      (case f_tags f of None \<Rightarrow> True
       | Some ts \<Rightarrow>
           list_all (\<lambda>t. sql_like (''%'' @ [CHR 0x22] @ t @ [CHR 0x22] @ ''%'')
                               (JSON_stringify_tags (tags r))) ts))"

definition sqlite_find :: "faults \<Rightarrow> filters \<Rightarrow> Note list \<Rightarrow> error + Note list" where
  "sqlite_find F f rows =
     (if db_all_fails F f then Inl SqliteError
      else Inr (sort_updatedAt_desc (filter (sqlite_where f) rows)))"

subsection \<open>\<^verbatim>\<open>adapters/fileAdapter.js\<close>\<close>

text \<open>\<^verbatim>\<open>upsert\<close> catches the error of \<^verbatim>\<open>fs.writeFile\<close> and logs it: it never rejects.\<close>

definition file_upsert :: "faults \<Rightarrow> Note \<Rightarrow> Note list \<Rightarrow> Note list" where
  "file_upsert F n files = (if fs_writeFile_fails F n then files else put_by_id n files)"

subsection \<open>\<^verbatim>\<open>adapters/dualAdapter.js\<close>\<close>

text \<open>
  The block \<^verbatim>\<open>try { await SqliteAdapter.upsert(n); await FileAdapter.upsert(n) } catch ...\<close>
  of \<^verbatim>\<open>get\<close> and \<^verbatim>\<open>find\<close>: a failure of the first write skips the second and is logged.
\<close>

definition cache_locally :: "faults \<Rightarrow> Note \<Rightarrow> stores \<Rightarrow> stores" where
  "cache_locally F n S =
     (case sqlite_upsert F n (primary S) of
        Inl e \<Rightarrow> S
      | Inr rows \<Rightarrow> S\<lparr>primary := rows, mirror := file_upsert F n (mirror S)\<rparr>)"

definition dual_get :: "faults \<Rightarrow> string \<Rightarrow> stores \<Rightarrow> (error + Note option) \<times> stores" where
  "dual_get F i S =
     (case sqlite_get F i (primary S) of
        Inl e \<Rightarrow> (Inl e, S)
      | Inr (Some local) \<Rightarrow> (Inr (Some local), S)
      | Inr None \<Rightarrow>
          (case remote S of
             None \<Rightarrow> (Inr None, S)
           | Some docs \<Rightarrow>
               if fire_get_fails F i then (Inr None, S)
               else (case find (\<lambda>d. nid d = i) docs of
                       None \<Rightarrow> (Inr None, S)
                     | Some n \<Rightarrow> (Inr (Some n), cache_locally F n S))))"

text \<open>
  \<^verbatim>\<open>Promise.all\<close> starts both local writes; the file write is made whether or not the
  SQLite write rejects, and only the latter can reject. The write to Firestore is tried
  afterwards and its failure is logged.
\<close>

definition dual_upsert :: "faults \<Rightarrow> Note \<Rightarrow> stores \<Rightarrow> (error + unit) \<times> stores" where
  "dual_upsert F n S =
     (let files = file_upsert F n (mirror S) in
      case sqlite_upsert F n (primary S) of
        Inl e \<Rightarrow> (Inl e, S\<lparr>mirror := files\<rparr>)
      | Inr rows \<Rightarrow>
          (case remote S of
             None \<Rightarrow> (Inr (), S\<lparr>primary := rows, mirror := files\<rparr>)
           | Some docs \<Rightarrow>
               if fire_set_fails F n then (Inr (), S\<lparr>primary := rows, mirror := files\<rparr>)
               else (Inr (), S\<lparr>primary := rows, mirror := files,
                                remote := Some (put_by_id n docs)\<rparr>)))"

text \<open>
  The loop of \<^verbatim>\<open>find\<close> over the filtered remote notes; \<open>ids\<close> is \<^verbatim>\<open>mapLocal\<close>, the ids
  of the local result, which the loop never extends.
\<close>

fun merge_loop :: "faults \<Rightarrow> string list \<Rightarrow> Note list \<Rightarrow> Note list \<times> stores \<Rightarrow> Note list \<times> stores" where
  "merge_loop F ids [] (merged, S) = (merged, S)"
| "merge_loop F ids (rn # rns) (merged, S) =
     (if nid rn \<notin> set ids then merge_loop F ids rns (merged @ [rn], cache_locally F rn S)
      else merge_loop F ids rns (merged, S))"

text \<open>
  The documents that the query \<^verbatim>\<open>where('uid', '==', filters.uid)\<close> returns (all of them
  without a truthy \<^verbatim>\<open>filters.uid\<close>), filtered by \<^verbatim>\<open>matchesFilters\<close>.
\<close>

definition filteredRemote :: "filters \<Rightarrow> Note list \<Rightarrow> Note list" where
  "filteredRemote f docs =
     (let remoteNotes = (if truthy_str (f_uid f) then filter (\<lambda>d. uid d = f_uid f) docs
                         else docs)
      in filter (\<lambda>n. matchesFilters n f) remoteNotes)"

definition dual_find :: "faults \<Rightarrow> filters \<Rightarrow> stores \<Rightarrow> (error + Note list) \<times> stores" where
  "dual_find F f S =
     (case sqlite_find F f (primary S) of
        Inl e \<Rightarrow> (Inl e, S)
      | Inr localNotes \<Rightarrow>
          (case remote S of
             None \<Rightarrow> (Inr localNotes, S)
           | Some docs \<Rightarrow>
               if fire_query_fails F f then (Inr localNotes, S)
               else
                 (let (merged, S') =
                        merge_loop F (map nid localNotes) (filteredRemote f docs) (localNotes, S)
                  in (Inr (sort_updatedAt_desc merged), S'))))"

section \<open>Sync protocol: \<^verbatim>\<open>routes/sync.js\<close>\<close>

definition split_tags :: "string \<Rightarrow> string list" where
  "split_tags s = filter (\<lambda>t. t \<noteq> []) (map trim (split_comma s))"

definition normalizeNoteInput :: "raw_note \<Rightarrow> user \<Rightarrow> ambient \<Rightarrow> Note" where
  "normalizeNoteInput b usr amb =
     \<lparr> nid = nullish (raw_id b) (nanoid amb),
       uid = (case user_uid usr of Some u \<Rightarrow> Some u | None \<Rightarrow> raw_uid b),
       title = nullish (raw_title b) [],
       body = nullish (raw_body b) [],
       createdAt = nullish (raw_createdAt b) (now_createdAt amb),
       updatedAt = nullish (raw_updatedAt b) (now_updatedAt amb),
       date = raw_date b,
       time = raw_time b,
       tags = (case raw_tags b of
                 TagsArray ts \<Rightarrow> ts
               | TagsFalsy \<Rightarrow> []
               | TagsText s \<Rightarrow> split_tags s),
       isDeleted = raw_isDeleted b \<rparr>"

datatype status = created | updated | skipped_server_newer | forbidden_owner_mismatch

text \<open>
  The body of the loop of \<^verbatim>\<open>POST /sync/push\<close> for one note. A rejected \<^verbatim>\<open>await\<close> leaves
  the loop; \<^verbatim>\<open>existing.uid !== req.user.uid\<close> holds as well when the token has no uid.
\<close>

definition push_note :: "faults \<Rightarrow> user \<Rightarrow> ambient \<Rightarrow> raw_note \<Rightarrow> stores \<Rightarrow> (error + string \<times> status) \<times> stores" where
  "push_note F usr amb raw S =
     (let note = normalizeNoteInput raw usr amb in
      case dual_get F (nid note) S of
        (Inl e, S1) \<Rightarrow> (Inl e, S1)
      | (Inr None, S1) \<Rightarrow>
          (case dual_upsert F note S1 of
             (Inl e, S2) \<Rightarrow> (Inl e, S2)
           | (Inr _, S2) \<Rightarrow> (Inr (nid note, created), S2))
      | (Inr (Some existing), S1) \<Rightarrow>
          if user_uid usr = None \<or> uid existing \<noteq> user_uid usr
          then (Inr (nid note, forbidden_owner_mismatch), S1)
          else if updatedAt note > updatedAt existing then
            (case dual_upsert F note S1 of
               (Inl e, S2) \<Rightarrow> (Inl e, S2)
             | (Inr _, S2) \<Rightarrow> (Inr (nid note, updated), S2))
          else (Inr (nid note, skipped_server_newer), S1))"

text \<open>
  \<^verbatim>\<open>req.body.notes\<close>: missing, a value that is not an array, or an array. An element of
  the array is \<^verbatim>\<open>null\<close> (\<open>None\<close>) or is read as an object, a primitive value being an
  object with none of the fields.
\<close>

datatype notes_field = NotesMissing | NotesNotArray | NotesArray "raw_note option list"

text \<open>
  \<^verbatim>\<open>for (const raw of notes)\<close>: \<open>amb k\<close> gives the ambient values for the element at
  position \<open>k\<close>, \<open>results\<close> is the array filled so far. For a \<^verbatim>\<open>null\<close> element
  \<^verbatim>\<open>normalizeNoteInput\<close> throws a TypeError at \<^verbatim>\<open>body.id\<close>, which leaves the loop as a
  rejected \<^verbatim>\<open>await\<close> does.
\<close>

fun push_loop :: "faults \<Rightarrow> user \<Rightarrow> (nat \<Rightarrow> ambient) \<Rightarrow> nat \<Rightarrow> raw_note option list \<Rightarrow> (string \<times> status) list \<Rightarrow> stores \<Rightarrow> (error + (string \<times> status) list) \<times> stores" where
  "push_loop F usr amb k [] results S = (Inr results, S)"
| "push_loop F usr amb k (None # elems) results S = (Inl TypeError, S)"
| "push_loop F usr amb k (Some raw # elems) results S =
     (case push_note F usr (amb k) raw S of
        (Inl e, S') \<Rightarrow> (Inl e, S')
      | (Inr r, S') \<Rightarrow> push_loop F usr amb (Suc k) elems (results @ [r]) S')"

text \<open>\<^verbatim>\<open>{ ok: true, results }\<close>, or status 500 with \<^verbatim>\<open>{ error: 'server_error' }\<close>.\<close>

datatype push_response = Push_ok "(string \<times> status) list" | Push_server_error

definition push :: "faults \<Rightarrow> user \<Rightarrow> (nat \<Rightarrow> ambient) \<Rightarrow> notes_field \<Rightarrow> stores \<Rightarrow> push_response \<times> stores" where
  "push F usr amb body_notes S =
     (let notes = (case body_notes of NotesArray xs \<Rightarrow> xs | _ \<Rightarrow> []) in
      case push_loop F usr amb 0 notes [] S of
        (Inl e, S') \<Rightarrow> (Push_server_error, S')
      | (Inr results, S') \<Rightarrow> (Push_ok results, S'))"

datatype pull_response = Pull_ok "Note list" | Pull_server_error

text \<open>
  \<^verbatim>\<open>GET /sync/pull\<close>; the query parameter \<^verbatim>\<open>lastSync\<close> is \<open>None\<close> when missing or empty
  and a number otherwise.
\<close>

definition pull_filters :: "user \<Rightarrow> int option \<Rightarrow> filters" where
  "pull_filters usr lastSync_param =
     \<lparr> f_q = None, f_dateFrom = None, f_dateTo = None, f_time = None, f_tags = None,
       f_updatedAfter = Some (nullish lastSync_param 0),
       f_includeDeleted = True,
       f_uid = user_uid usr \<rparr>"

definition pull :: "faults \<Rightarrow> user \<Rightarrow> int option \<Rightarrow> stores \<Rightarrow> pull_response \<times> stores" where
  "pull F usr lastSync_param S =
     (case dual_find F (pull_filters usr lastSync_param) S of
        (Inl e, S') \<Rightarrow> (Pull_server_error, S')
      | (Inr notes, S') \<Rightarrow> (Pull_ok notes, S'))"

section \<open>Notions used in the statements\<close>

text \<open>The stores after two requests in a row, each pushing one note.\<close>

definition push_then :: "faults \<Rightarrow> user \<Rightarrow> ambient \<Rightarrow> raw_note \<Rightarrow> ambient \<Rightarrow> raw_note \<Rightarrow> stores \<Rightarrow> stores" where
  "push_then F usr a1 r1 a2 r2 S = snd (push_note F usr a2 r2 (snd (push_note F usr a1 r1 S)))"

text \<open>The remote notes that \<^verbatim>\<open>find\<close> appends to the local result.\<close>

definition remote_additions :: "faults \<Rightarrow> filters \<Rightarrow> stores \<Rightarrow> Note list \<Rightarrow> Note list" where
  "remote_additions F f S localNotes =
     (case remote S of
        None \<Rightarrow> []
      | Some docs \<Rightarrow>
          if fire_query_fails F f then []
          else filter (\<lambda>rn. nid rn \<notin> set (map nid localNotes)) (filteredRemote f docs))"




section \<open>The filter semantics as specified\<close>

text \<open>
  The filter semantics in the words of the specification: a record must satisfy every
  supplied predicate. \<open>owner = X\<close>: the owner equals \<open>X\<close>; \<open>includeDeleted\<close> false:
  tombstones are excluded; \<open>textQuery = s\<close>: \<open>s\<close> is, letter case apart, a substring of
  the title or of the body; \<open>updatedAfter = t\<close>: \<open>updatedAt\<close> is strictly greater;
  \<open>dateFrom\<close>, \<open>dateTo\<close>: inclusive bounds on the date; \<open>time = s\<close>: the time equals
  \<open>s\<close>; \<open>tags = set\<close>: the record has every tag of the set.
\<close>

definition spec_matches :: "Note \<Rightarrow> filters \<Rightarrow> bool" where
  "spec_matches n f =
     ((case f_uid f of None \<Rightarrow> True | Some x \<Rightarrow> uid n = Some x) \<and>
      (f_includeDeleted f \<or> \<not> isDeleted n) \<and>
      (case f_q f of None \<Rightarrow> True
       | Some s \<Rightarrow> sublist (toLowerCase s) (toLowerCase (title n)) \<or>
                  sublist (toLowerCase s) (toLowerCase (body n))) \<and>
      (case f_updatedAfter f of None \<Rightarrow> True | Some t \<Rightarrow> t < updatedAt n) \<and>
      (case f_dateFrom f of None \<Rightarrow> True
       | Some d \<Rightarrow> (case date n of None \<Rightarrow> False | Some x \<Rightarrow> d \<le> x)) \<and>
      (case f_dateTo f of None \<Rightarrow> True
       | Some d \<Rightarrow> (case date n of None \<Rightarrow> False | Some x \<Rightarrow> x \<le> d)) \<and>
      (case f_time f of None \<Rightarrow> True | Some s \<Rightarrow> time n = Some s) \<and>
      (case f_tags f of None \<Rightarrow> True | Some ts \<Rightarrow> set ts \<subseteq> set (tags n)))"

text \<open>
  The filter with every falsy field (an empty string, the number 0, an empty list of tags)
  taken as not supplied.
\<close>

definition truthy_fields :: "filters \<Rightarrow> filters" where
  "truthy_fields f =
     \<lparr> f_q = (if truthy_str (f_q f) then f_q f else None),
       f_dateFrom = (if truthy_num (f_dateFrom f) then f_dateFrom f else None),
       f_dateTo = (if truthy_num (f_dateTo f) then f_dateTo f else None),
       f_time = (if truthy_str (f_time f) then f_time f else None),
       f_tags = (case f_tags f of None \<Rightarrow> None | Some ts \<Rightarrow> if ts = [] then None else Some ts),
       f_updatedAfter = (if truthy_num (f_updatedAfter f) then f_updatedAfter f else None),
       f_includeDeleted = f_includeDeleted f,
       f_uid = (if truthy_str (f_uid f) then f_uid f else None) \<rparr>"

section \<open>Example inputs\<close>

text \<open>A world in which no call fails, and one in which every write of a note file fails.\<close>

definition no_faults :: faults where
  "no_faults =
     \<lparr> db_get_fails = (\<lambda>_. False), db_run_fails = (\<lambda>_. False), db_all_fails = (\<lambda>_. False),
       fs_writeFile_fails = (\<lambda>_. False), fire_get_fails = (\<lambda>_. False),
       fire_set_fails = (\<lambda>_. False), fire_query_fails = (\<lambda>_. False) \<rparr>"

definition mirror_down :: faults where
  "mirror_down = no_faults\<lparr> fs_writeFile_fails := (\<lambda>_. True) \<rparr>"

definition empty_stores :: stores where
  "empty_stores = \<lparr> primary = [], mirror = [], remote = None \<rparr>"

definition mk_note :: "string \<Rightarrow> string \<Rightarrow> string \<Rightarrow> int \<Rightarrow> Note" where
  "mk_note i owner t u =
     \<lparr> nid = i, uid = Some owner, title = t, body = [], createdAt = 1, updatedAt = u,
       date = None, time = None, tags = [], isDeleted = False \<rparr>"

definition mk_raw :: "string \<Rightarrow> string \<Rightarrow> int \<Rightarrow> raw_note" where
  "mk_raw i t u =
     \<lparr> raw_id = Some i, raw_uid = None, raw_title = Some t, raw_body = None,
       raw_createdAt = Some 1, raw_updatedAt = Some u, raw_date = None, raw_time = None,
       raw_tags = TagsFalsy, raw_isDeleted = False \<rparr>"

definition amb0 :: "nat \<Rightarrow> ambient" where
  "amb0 k = \<lparr> nanoid = ''generated'', now_createdAt = 1000, now_updatedAt = 1000 \<rparr>"

definition store_n1 :: stores where
  "store_n1 = \<lparr> primary = [mk_note ''n1'' ''u1'' ''A'' 100], mirror = [], remote = None \<rparr>"



definition filters_u1 :: filters where
  "filters_u1 =
     \<lparr> f_q = None, f_dateFrom = None, f_dateTo = None, f_time = None, f_tags = None,
       f_updatedAfter = None, f_includeDeleted = False, f_uid = Some ''u1'' \<rparr>"

definition store_b_local_a_remote :: stores where
  "store_b_local_a_remote =
     \<lparr> primary = [mk_note ''b'' ''u1'' ''local'' 100], mirror = [],
       remote = Some [mk_note ''a'' ''u1'' ''remote'' 100] \<rparr>"

definition store_n1_both :: stores where
  "store_n1_both =
     \<lparr> primary = [mk_note ''n1'' ''u1'' ''local'' 100], mirror = [],
       remote = Some [mk_note ''n1'' ''u1'' ''remote'' 200, mk_note ''n2'' ''u1'' ''other'' 50] \<rparr>"

definition tombstone_0 :: Note where
  "tombstone_0 = (mk_note ''n1'' ''u1'' ''gone'' 0)\<lparr> isDeleted := True \<rparr>"

definition tombstone_500 :: Note where
  "tombstone_500 = (mk_note ''n1'' ''u1'' ''gone'' 500)\<lparr> isDeleted := True \<rparr>"

definition store_tombstone_0 :: stores where
  "store_tombstone_0 = \<lparr> primary = [tombstone_0], mirror = [], remote = None \<rparr>"

definition store_tombstone_500 :: stores where
  "store_tombstone_500 = \<lparr> primary = [tombstone_500], mirror = [], remote = None \<rparr>"

definition filter_updatedAfter_0 :: filters where
  "filter_updatedAfter_0 =
     \<lparr> f_q = None, f_dateFrom = None, f_dateTo = None, f_time = None, f_tags = None,
       f_updatedAfter = Some 0, f_includeDeleted = False, f_uid = Some ''u1'' \<rparr>"

definition filter_tags_text :: filters where
  "filter_tags_text =
     \<lparr> f_q = Some ''MILK'', f_dateFrom = None, f_dateTo = None, f_time = None,
       f_tags = Some [''home'', ''shop''],
       f_updatedAfter = None, f_includeDeleted = False, f_uid = Some ''u1'' \<rparr>"

definition note_shopping :: "string list \<Rightarrow> Note" where
  "note_shopping ts = (mk_note ''n1'' ''u1'' ''Buy Milk'' 100)\<lparr> tags := ts \<rparr>"








section \<open>Facts about the stores\<close>

lemma nid_row_of [simp]: "nid (row_of n) = nid n"
  by (simp add: row_of_def)

lemma row_of_owned: "uid n = Some c \<Longrightarrow> c \<noteq> [] \<Longrightarrow> row_of n = n"
  by (simp add: row_of_def truthy_str_def)

lemma find_replace_row:
  "find (\<lambda>r. nid r = nid n) rows = Some e \<Longrightarrow>
   find (\<lambda>r. nid r = nid n) (map (\<lambda>r. if nid r = nid n then row_of n else r) rows) = Some (row_of n)"
  by (induction rows) (auto split: if_splits)

lemma find_append_row:
  "find (\<lambda>r. nid r = nid n) rows = None \<Longrightarrow>
   find (\<lambda>r. nid r = nid n) (rows @ [row_of n]) = Some (row_of n)"
  by (induction rows) (auto split: if_splits)

lemma sqlite_upsert_ok:
  assumes "\<not> db_get_fails F (nid n)" and "\<not> db_run_fails F n"
  shows "\<exists>rows'. sqlite_upsert F n rows = Inr rows' \<and>
           find (\<lambda>r. nid r = nid n) rows' = Some (row_of n)"
  using assms
  by (cases "find (\<lambda>r. nid r = nid n) rows")
     (auto simp: sqlite_upsert_def sqlite_get_def find_replace_row find_append_row)

lemma sqlite_upsert_fails_iff:
  "(\<exists>e. sqlite_upsert F n rows = Inl e) = (db_get_fails F (nid n) \<or> db_run_fails F n)"
  by (cases "find (\<lambda>r. nid r = nid n) rows")
     (auto simp: sqlite_upsert_def sqlite_get_def)

lemma dual_upsert_ok:
  assumes "\<not> db_get_fails F (nid n)" and "\<not> db_run_fails F n"
  shows "\<exists>S'. dual_upsert F n S = (Inr (), S') \<and>
           find (\<lambda>r. nid r = nid n) (primary S') = Some (row_of n)"
proof -
  from sqlite_upsert_ok [OF assms] obtain rows' where
    r: "sqlite_upsert F n (primary S) = Inr rows'"
    and f: "find (\<lambda>r. nid r = nid n) rows' = Some (row_of n)" by blast
  show ?thesis
    by (cases "remote S") (simp_all add: dual_upsert_def Let_def r f)
qed

lemma uid_normalizeNoteInput:
  "user_uid usr = Some c \<Longrightarrow> uid (normalizeNoteInput raw usr amb) = Some c"
  by (simp add: normalizeNoteInput_def)

lemma dual_get_primary_hit:
  "\<not> db_get_fails F i \<Longrightarrow> find (\<lambda>r. nid r = i) (primary S) = Some r \<Longrightarrow>
   dual_get F i S = (Inr (Some r), S)"
  by (simp add: dual_get_def sqlite_get_def)

lemma dual_get_total:
  "\<not> db_get_fails F i \<Longrightarrow> \<exists>ex S1. dual_get F i S = (Inr ex, S1)"
  by (auto simp: dual_get_def sqlite_get_def split: option.splits)


lemma find_nid: "find (\<lambda>d. nid d = i) xs = Some e \<Longrightarrow> nid e = i"
  by (induction xs) (auto split: if_splits)

lemma cache_locally_cases:
  "cache_locally F n S = S \<or>
   (find (\<lambda>r. nid r = nid n) (primary (cache_locally F n S)) = Some (row_of n) \<and>
    remote (cache_locally F n S) = remote S)"
proof (cases "sqlite_upsert F n (primary S)")
  case (Inl e)
  then show ?thesis by (simp add: cache_locally_def)
next
  case (Inr rows)
  have "find (\<lambda>r. nid r = nid n) rows = Some (row_of n)"
    using Inr
    by (cases "find (\<lambda>r. nid r = nid n) (primary S)")
       (auto simp: sqlite_upsert_def sqlite_get_def find_replace_row find_append_row
             split: if_splits)
  with Inr show ?thesis by (simp add: cache_locally_def)
qed

lemma dual_get_again:
  assumes ok: "\<not> db_get_fails F i"
    and g: "dual_get F i S = (Inr (Some e), S1)"
    and r: "row_of e = e"
  shows "fst (dual_get F i S1) = Inr (Some e)"
proof (cases "find (\<lambda>r. nid r = i) (primary S)")
  case (Some r0)
  with ok g have "e = r0" "S1 = S" by (simp_all add: dual_get_primary_hit)
  with ok Some show ?thesis by (simp add: dual_get_primary_hit)
next
  case None
  with ok g obtain docs where d: "remote S = Some docs" "\<not> fire_get_fails F i"
      "find (\<lambda>d. nid d = i) docs = Some e" "S1 = cache_locally F e S"
    by (auto simp: dual_get_def sqlite_get_def split: option.splits if_splits)
  have i: "nid e = i" using d(3) by (rule find_nid)
  from cache_locally_cases [of F e S] show ?thesis
  proof
    assume "cache_locally F e S = S"
    with d g show ?thesis by simp
  next
    assume "find (\<lambda>r. nid r = nid e) (primary (cache_locally F e S)) = Some (row_of e) \<and>
            remote (cache_locally F e S) = remote S"
    with i r d(4) have "find (\<lambda>r. nid r = i) (primary S1) = Some e" by simp
    with ok show ?thesis by (simp add: dual_get_primary_hit)
  qed
qed



lemma nid_normalizeNoteInput:
  "raw_id raw = Some i \<Longrightarrow> nid (normalizeNoteInput raw usr amb) = i"
  by (simp add: normalizeNoteInput_def nullish_def)


lemma push_note_created_row:
  assumes "user_uid usr = Some c" and "c \<noteq> []"
    and "fst (dual_get F (nid n) S) = Inr None" and "n = normalizeNoteInput raw usr a"
    and "\<not> db_get_fails F (nid n)" and "\<not> db_run_fails F n"
  shows "find (\<lambda>r. nid r = nid n) (primary (snd (push_note F usr a raw S))) = Some n"
proof -
  obtain S1 where g: "dual_get F (nid n) S = (Inr None, S1)"
    using assms(3) by (cases "dual_get F (nid n) S") simp
  have row: "row_of n = n"
    using assms(1,2,4) by (simp add: row_of_owned uid_normalizeNoteInput)
  from dual_upsert_ok [OF assms(5,6), of S1] obtain S' where
    "dual_upsert F n S1 = (Inr (), S')" "find (\<lambda>r. nid r = nid n) (primary S') = Some n"
    by (auto simp: row)
  with g assms(4) show ?thesis by (simp add: push_note_def Let_def)
qed

lemma push_note_own_row:
  assumes "user_uid usr = Some c" and "c \<noteq> []"
    and "find (\<lambda>r. nid r = nid n) (primary S) = Some e" and "uid e = Some c"
    and "n = normalizeNoteInput raw usr a"
    and "\<not> db_get_fails F (nid n)" and "\<not> db_run_fails F n"
  shows "find (\<lambda>r. nid r = nid n) (primary (snd (push_note F usr a raw S))) =
           Some (if updatedAt e < updatedAt n then n else e)"
proof -
  have g: "dual_get F (nid n) S = (Inr (Some e), S)"
    using assms(3,6) by (simp add: dual_get_primary_hit)
  have row: "row_of n = n"
    using assms(1,2,5) by (simp add: row_of_owned uid_normalizeNoteInput)
  from dual_upsert_ok [OF assms(6,7), of S] obtain S' where
    "dual_upsert F n S = (Inr (), S')" "find (\<lambda>r. nid r = nid n) (primary S') = Some n"
    by (auto simp: row)
  with g assms(1,3,4,5) show ?thesis by (auto simp: push_note_def Let_def)
qed

lemma push_then_record:
  assumes auth: "user_uid usr = Some c" "c \<noteq> []"
    and ids: "raw_id r1 = Some i" "raw_id r2 = Some i"
    and absent: "fst (dual_get F i S) = Inr None"
    and ok: "\<not> db_get_fails F i" "\<not> db_run_fails F (normalizeNoteInput r1 usr a1)"
            "\<not> db_run_fails F (normalizeNoteInput r2 usr a2)"
  shows "fst (dual_get F i (push_then F usr a1 r1 a2 r2 S)) =
           Inr (Some (if updatedAt (normalizeNoteInput r1 usr a1) < updatedAt (normalizeNoteInput r2 usr a2)
                      then normalizeNoteInput r2 usr a2 else normalizeNoteInput r1 usr a1))"
proof -
  let ?n1 = "normalizeNoteInput r1 usr a1" and ?n2 = "normalizeNoteInput r2 usr a2"
  let ?S1 = "snd (push_note F usr a1 r1 S)"
  have i1: "nid ?n1 = i" and i2: "nid ?n2 = i" using ids by (simp_all add: nid_normalizeNoteInput)
  have "find (\<lambda>r. nid r = nid ?n1) (primary ?S1) = Some ?n1"
    using auth absent ok(1,2) i1 by (intro push_note_created_row [where c = c]) simp_all
  then have f1: "find (\<lambda>r. nid r = nid ?n2) (primary ?S1) = Some ?n1" by (simp add: i1 i2)
  have u1: "uid ?n1 = Some c" using auth(1) by (rule uid_normalizeNoteInput)
  have "find (\<lambda>r. nid r = nid ?n2) (primary (snd (push_note F usr a2 r2 ?S1))) =
           Some (if updatedAt ?n1 < updatedAt ?n2 then ?n2 else ?n1)"
    using auth f1 u1 ok(1,3) i2 by (intro push_note_own_row [where c = c]) simp_all
  then show ?thesis using ok(1) by (simp add: push_then_def i2 dual_get_primary_hit)
qed

lemma merge_loop_list:
  "fst (merge_loop F ids rs (merged, S)) = merged @ filter (\<lambda>rn. nid rn \<notin> set ids) rs"
  by (induction rs arbitrary: merged S) auto

lemma set_sort_updatedAt_desc [simp]: "set (sort_updatedAt_desc xs) = set xs"
  by (simp add: sort_updatedAt_desc_def)

lemma sorted_sort_updatedAt_desc:
  "sorted_wrt (\<lambda>a b. updatedAt b \<le> updatedAt a) (sort_updatedAt_desc xs)"
proof -
  have "sorted (map (\<lambda>n. - updatedAt n) (sort_updatedAt_desc xs))"
    unfolding sort_updatedAt_desc_def by (rule sorted_sort_key)
  then show ?thesis by (simp add: sorted_map)
qed

lemma stable_sort_updatedAt_desc:
  "filter (\<lambda>n. updatedAt n = t) (sort_updatedAt_desc xs) = filter (\<lambda>n. updatedAt n = t) xs"
  using sort_key_stable [of "\<lambda>n. - updatedAt n" "- t" xs]
  by (simp add: sort_updatedAt_desc_def)

lemma distinct_map_insort_key:
  "distinct (map g (insort_key k x xs)) = (g x \<notin> g ` set xs \<and> distinct (map g xs))"
  by (induction xs) (auto simp: set_insort_key)

lemma distinct_ids_sort_updatedAt_desc:
  "distinct (map nid (sort_updatedAt_desc xs)) = distinct (map nid xs)"
  unfolding sort_updatedAt_desc_def
  by (induction xs) (simp_all add: distinct_map_insort_key)

lemma dual_find_result:
  assumes "sqlite_find F f (primary S) = Inr localNotes"
  shows "fst (dual_find F f S) =
           Inr (if remote S = None \<or> fire_query_fails F f then localNotes
                else sort_updatedAt_desc (localNotes @ remote_additions F f S localNotes))"
  using assms
  by (cases "remote S")
     (auto simp: dual_find_def remote_additions_def Let_def split_beta merge_loop_list
           simp del: set_map)

lemma sqlite_find_result:
  "sqlite_find F f rows = Inr localNotes \<Longrightarrow>
   localNotes = sort_updatedAt_desc (filter (sqlite_where f) rows)"
  by (auto simp: sqlite_find_def split: if_splits)

lemma same_id_same_note:
  "distinct (map nid xs) \<Longrightarrow> a \<in> set xs \<Longrightarrow> b \<in> set xs \<Longrightarrow> nid a = nid b \<Longrightarrow> a = b"
  by (meson distinct_map inj_on_def)

lemma distinct_ids_append:
  assumes "distinct (map nid xs)" and "distinct (map nid ys)"
    and "\<forall>a\<in>set ys. nid a \<notin> set (map nid xs)"
  shows "distinct (map nid (xs @ ys))"
proof -
  have "set (map nid xs) \<inter> set (map nid ys) = {}"
  proof (rule ccontr)
    assume "set (map nid xs) \<inter> set (map nid ys) \<noteq> {}"
    then obtain i where i: "i \<in> set (map nid xs)" "i \<in> set (map nid ys)" by blast
    from i(2) obtain a where a: "a \<in> set ys" "nid a = i" by (auto simp: image_iff)
    from assms(3) a(1) have "nid a \<notin> set (map nid xs)" by (rule bspec)
    with a(2) i(1) show False by simp
  qed
  with assms(1,2) show ?thesis by (simp only: map_append distinct_append)
qed

lemma find_b_a:
  "sqlite_find no_faults filters_u1 (primary store_b_local_a_remote) =
     Inr [mk_note ''b'' ''u1'' ''local'' 100] \<and>
   remote_additions no_faults filters_u1 store_b_local_a_remote [mk_note ''b'' ''u1'' ''local'' 100] =
     [mk_note ''a'' ''u1'' ''remote'' 100]"
  by (simp add: sqlite_find_def sqlite_where_def sort_updatedAt_desc_def
        remote_additions_def filteredRemote_def matchesFilters_def truthy_str_def Let_def
        no_faults_def filters_u1_def store_b_local_a_remote_def mk_note_def)

lemma sqlite_where_pull:
  assumes "user_uid usr = Some c" and "c \<noteq> []"
  shows "sqlite_where (pull_filters usr ls) r =
           (uid r = Some c \<and> (nullish ls 0 = 0 \<or> nullish ls 0 < updatedAt r))"
  using assms by (auto simp: sqlite_where_def pull_filters_def truthy_str_def)

lemma matchesFilters_pull:
  assumes "user_uid usr = Some c" and "c \<noteq> []"
  shows "matchesFilters r (pull_filters usr ls) =
           (uid r = Some c \<and> (nullish ls 0 = 0 \<or> nullish ls 0 < updatedAt r))"
  using assms by (auto simp: matchesFilters_def pull_filters_def truthy_str_def)

lemma filteredRemote_pull:
  assumes "user_uid usr = Some c" and "c \<noteq> []"
  shows "set (filteredRemote (pull_filters usr ls) docs) =
           {d \<in> set docs. uid d = Some c \<and> (nullish ls 0 = 0 \<or> nullish ls 0 < updatedAt d)}"
proof -
  have u: "truthy_str (f_uid (pull_filters usr ls))"
    using assms by (simp add: pull_filters_def truthy_str_def)
  have v: "f_uid (pull_filters usr ls) = Some c"
    using assms by (simp add: pull_filters_def)
  show ?thesis
    unfolding filteredRemote_def Let_def
    by (simp only: u if_True filter_filter set_filter matchesFilters_pull [OF assms] v) auto
qed

lemma str_includes_sublist: "str_includes s q = sublist q s"
  by (induction s) (simp_all add: sublist_Cons_right)

lemma tags_loop_subset: "tags_loop ts nt = (set ts \<subseteq> set nt)"
  by (induction ts) auto

lemma matchesFilters_conj:
  "matchesFilters n f =
     (\<not> (\<not> f_includeDeleted f \<and> isDeleted n) \<and>
      \<not> (truthy_str (f_uid f) \<and> uid n \<noteq> f_uid f) \<and>
      \<not> (case f_q f of None \<Rightarrow> False
          | Some s \<Rightarrow> s \<noteq> [] \<and>
              \<not> (str_includes (toLowerCase (title n)) (toLowerCase s) \<or>
                 str_includes (toLowerCase (body n)) (toLowerCase s))) \<and>
      \<not> (case f_updatedAfter f of None \<Rightarrow> False | Some t \<Rightarrow> t \<noteq> 0 \<and> updatedAt n \<le> t) \<and>
      \<not> (case f_dateFrom f of None \<Rightarrow> False
          | Some d \<Rightarrow> d \<noteq> 0 \<and> \<not> (case date n of None \<Rightarrow> False | Some x \<Rightarrow> x \<noteq> 0 \<and> x \<ge> d)) \<and>
      \<not> (case f_dateTo f of None \<Rightarrow> False
          | Some d \<Rightarrow> d \<noteq> 0 \<and> \<not> (case date n of None \<Rightarrow> False | Some x \<Rightarrow> x \<noteq> 0 \<and> x \<le> d)) \<and>
      \<not> (truthy_str (f_time f) \<and> time n \<noteq> f_time f) \<and>
      \<not> (case f_tags f of None \<Rightarrow> False | Some ts \<Rightarrow> ts \<noteq> [] \<and> \<not> tags_loop ts (tags n)))"
  unfolding matchesFilters_def by (simp only: if_bool_eq_conj simp_thms) blast

lemma lower_milk: "toLowerCase ''MILK'' = ''milk'' \<and> toLowerCase ''Buy Milk'' = ''buy milk''"
  by code_simp
























section \<open>Fan-out upsert\<close>

text \<open>
  Claim C3, as the code has it: the fan-out upsert succeeds exactly when the write to the
  Primary Store succeeds, that is when neither the lookup nor the INSERT or UPDATE of
  \<^verbatim>\<open>SqliteAdapter.upsert\<close> is rejected. A failed write to the Mirror Store is logged
  inside \<^verbatim>\<open>FileAdapter.upsert\<close> and, like a failed write to the Remote Replica, does not
  make the upsert fail.
\<close>

theorem dual_upsert_succeeds_iff_primary:
  "(fst (dual_upsert F n S) = Inr ()) = (\<not> db_get_fails F (nid n) \<and> \<not> db_run_fails F n)"
proof (cases "sqlite_upsert F n (primary S)")
  case (Inl e)
  then have "db_get_fails F (nid n) \<or> db_run_fails F n"
    using sqlite_upsert_fails_iff [of F n "primary S"] by blast
  with Inl show ?thesis by (auto simp: dual_upsert_def Let_def)
next
  case (Inr rows)
  then have "\<not> (db_get_fails F (nid n) \<or> db_run_fails F n)"
    using sqlite_upsert_fails_iff [of F n "primary S"] by auto
  with Inr show ?thesis by (cases "remote S") (auto simp: dual_upsert_def Let_def)
qed

theorem dual_upsert_succeeds_iff_primary_witness:
  "fst (dual_upsert mirror_down (mk_note ''n1'' ''u1'' ''A'' 100) empty_stores) = Inr ()"
  using dual_upsert_succeeds_iff_primary
          [of mirror_down "mk_note ''n1'' ''u1'' ''A'' 100" empty_stores]
  by (simp add: mirror_down_def no_faults_def)

text \<open>
  The claim as stated fails: with the file write failing, the upsert still reports success,
  the note is in the Primary Store and not in the Mirror Store.
\<close>

theorem dual_upsert_mirror_failure_counterexample:
  "fs_writeFile_fails mirror_down (mk_note ''n1'' ''u1'' ''A'' 100) \<and>
   dual_upsert mirror_down (mk_note ''n1'' ''u1'' ''A'' 100) empty_stores =
     (Inr (), \<lparr> primary = [mk_note ''n1'' ''u1'' ''A'' 100], mirror = [], remote = None \<rparr>)"
  by (simp add: dual_upsert_def sqlite_upsert_def sqlite_get_def file_upsert_def row_of_def
        truthy_str_def mirror_down_def no_faults_def empty_stores_def mk_note_def Let_def)

section \<open>Push\<close>

text \<open>
  Claim C1: a push of one note by an authenticated caller (the token carries a non-empty
  uid \<open>c\<close>), with the SQLite calls for this note not failing. Let \<open>existing\<close> be what
  \<^verbatim>\<open>adapter.get\<close> returns for the id of the normalised note and \<open>S1\<close> the stores after
  that lookup.
  \<^item> No record: the outcome is \<^verbatim>\<open>created\<close>, and afterwards the record for the id is the
    pushed note, owned by \<open>c\<close>.
  \<^item> A record of another owner: the outcome is \<^verbatim>\<open>forbidden_owner_mismatch\<close> and the
    stores are those after the lookup.
  \<^item> A record of \<open>c\<close> with a smaller \<^verbatim>\<open>updatedAt\<close>: the outcome is \<^verbatim>\<open>updated\<close>, and
    afterwards the record for the id is the pushed note.
  \<^item> A record of \<open>c\<close> whose \<^verbatim>\<open>updatedAt\<close> is not smaller: the outcome is
    \<^verbatim>\<open>skipped_server_newer\<close>, the stores are those after the lookup and the record for the
    id is still the existing one.
\<close>

theorem push_note_classification:
  assumes auth: "user_uid usr = Some c" "c \<noteq> []"
    and n: "note = normalizeNoteInput raw usr amb"
    and ok: "\<not> db_get_fails F (nid note)" "\<not> db_run_fails F note"
  shows "\<exists>existing S1.
           dual_get F (nid note) S = (Inr existing, S1) \<and>
           (existing = None \<longrightarrow>
              (\<exists>S'. push_note F usr amb raw S = (Inr (nid note, created), S') \<and>
                    fst (dual_get F (nid note) S') = Inr (Some note) \<and> uid note = Some c)) \<and>
           (\<forall>e. existing = Some e \<and> uid e \<noteq> Some c \<longrightarrow>
              push_note F usr amb raw S = (Inr (nid note, forbidden_owner_mismatch), S1)) \<and>
           (\<forall>e. existing = Some e \<and> uid e = Some c \<and> updatedAt e < updatedAt note \<longrightarrow>
              (\<exists>S'. push_note F usr amb raw S = (Inr (nid note, updated), S') \<and>
                    fst (dual_get F (nid note) S') = Inr (Some note) \<and> uid note = Some c)) \<and>
           (\<forall>e. existing = Some e \<and> uid e = Some c \<and> updatedAt note \<le> updatedAt e \<longrightarrow>
              push_note F usr amb raw S = (Inr (nid note, skipped_server_newer), S1) \<and>
              fst (dual_get F (nid note) S1) = Inr (Some e))"
proof -
  from dual_get_total [OF ok(1)] obtain existing S1 where
    g: "dual_get F (nid note) S = (Inr existing, S1)" by blast
  have u: "uid note = Some c" using auth(1) n by (simp add: uid_normalizeNoteInput)
  have row: "row_of note = note" using u auth(2) by (rule row_of_owned)
  from dual_upsert_ok [OF ok, of S1] obtain S' where
    up: "dual_upsert F note S1 = (Inr (), S')"
    and f: "find (\<lambda>r. nid r = nid note) (primary S') = Some note"
    by (auto simp: row)
  have stored: "fst (dual_get F (nid note) S') = Inr (Some note)"
    using ok(1) f by (simp add: dual_get_primary_hit)
  have c1: "existing = None \<longrightarrow>
              (\<exists>S'. push_note F usr amb raw S = (Inr (nid note, created), S') \<and>
                    fst (dual_get F (nid note) S') = Inr (Some note) \<and> uid note = Some c)"
    using g up stored u n by (auto simp: push_note_def Let_def)
  have c2: "\<forall>e. existing = Some e \<and> uid e \<noteq> Some c \<longrightarrow>
              push_note F usr amb raw S = (Inr (nid note, forbidden_owner_mismatch), S1)"
    using g auth(1) n by (auto simp: push_note_def Let_def)
  have c3: "\<forall>e. existing = Some e \<and> uid e = Some c \<and> updatedAt e < updatedAt note \<longrightarrow>
              (\<exists>S'. push_note F usr amb raw S = (Inr (nid note, updated), S') \<and>
                    fst (dual_get F (nid note) S') = Inr (Some note) \<and> uid note = Some c)"
    using g up stored u auth(1) n by (auto simp: push_note_def Let_def)
  have c4: "\<forall>e. existing = Some e \<and> uid e = Some c \<and> updatedAt note \<le> updatedAt e \<longrightarrow>
              push_note F usr amb raw S = (Inr (nid note, skipped_server_newer), S1) \<and>
              fst (dual_get F (nid note) S1) = Inr (Some e)"
  proof (intro allI impI, elim conjE)
    fix e assume e: "existing = Some e" "uid e = Some c" "updatedAt note \<le> updatedAt e"
    have "row_of e = e" using e(2) auth(2) by (rule row_of_owned)
    with ok(1) g e(1) have "fst (dual_get F (nid note) S1) = Inr (Some e)"
      by (auto intro: dual_get_again)
    moreover have "push_note F usr amb raw S = (Inr (nid note, skipped_server_newer), S1)"
      using g e auth(1) n by (auto simp: push_note_def Let_def)
    ultimately show "push_note F usr amb raw S = (Inr (nid note, skipped_server_newer), S1) \<and>
              fst (dual_get F (nid note) S1) = Inr (Some e)" by simp
  qed
  from g c1 c2 c3 c4 show ?thesis by blast
qed

theorem push_note_classification_witness:
  "user_uid \<lparr>user_uid = Some ''u1''\<rparr> = Some ''u1'' \<and> ''u1'' \<noteq> [] \<and>
   \<not> db_get_fails no_faults ''n1'' \<and>
   \<not> db_run_fails no_faults (normalizeNoteInput (mk_raw ''n1'' ''B'' 50) \<lparr>user_uid = Some ''u1''\<rparr> (amb0 0)) \<and>
   push_note no_faults \<lparr>user_uid = Some ''u1''\<rparr> (amb0 0) (mk_raw ''n1'' ''B'' 50) store_n1 =
     (Inr (''n1'', skipped_server_newer), store_n1) \<and>
   fst (dual_get no_faults ''n1'' store_n1) = Inr (Some (mk_note ''n1'' ''u1'' ''A'' 100))"
proof -
  let ?usr = "\<lparr>user_uid = Some ''u1''\<rparr>"
  let ?raw = "mk_raw ''n1'' ''B'' 50"
  let ?note = "normalizeNoteInput ?raw ?usr (amb0 0)"
  have h1: "user_uid ?usr = Some ''u1''" by simp
  have h2: "''u1'' \<noteq> []" by simp
  have i: "nid ?note = ''n1''" by (simp add: normalizeNoteInput_def mk_raw_def nullish_def)
  have h3: "\<not> db_get_fails no_faults (nid ?note)" by (simp add: no_faults_def)
  have h4: "\<not> db_run_fails no_faults ?note" by (simp add: no_faults_def)
  have g: "dual_get no_faults ''n1'' store_n1 = (Inr (Some (mk_note ''n1'' ''u1'' ''A'' 100)), store_n1)"
    by (simp add: dual_get_def sqlite_get_def no_faults_def store_n1_def mk_note_def)
  have le: "updatedAt ?note \<le> updatedAt (mk_note ''n1'' ''u1'' ''A'' 100)"
    by (simp add: normalizeNoteInput_def mk_raw_def nullish_def mk_note_def)
  have o: "uid (mk_note ''n1'' ''u1'' ''A'' 100) = Some ''u1''" by (simp add: mk_note_def)
  from push_note_classification [OF h1 h2 refl h3 h4, of store_n1] g le o i
  have "push_note no_faults ?usr (amb0 0) ?raw store_n1 = (Inr (''n1'', skipped_server_newer), store_n1)"
    by auto
  with h1 h2 h3 h4 g i show ?thesis by simp
qed





text \<open>
  Claim C10: when the body of a push request has no \<^verbatim>\<open>notes\<close> field, or the field is not
  an array, the request is an empty batch: the response is \<^verbatim>\<open>ok: true\<close> with an empty
  list of results, and no store is changed.
\<close>

theorem push_without_notes_array:
  "body_notes = NotesMissing \<or> body_notes = NotesNotArray \<Longrightarrow>
   push F usr amb body_notes S = (Push_ok [], S)"
  by (auto simp: push_def)

theorem push_without_notes_array_witness:
  "push no_faults \<lparr>user_uid = Some ''u1''\<rparr> amb0 NotesNotArray empty_stores =
     (Push_ok [], empty_stores)"
  using push_without_notes_array [of NotesNotArray] by simp

text \<open>
  Claim C8, as the code has it. Two notes with the same id are pushed one after the other
  by the same authenticated caller, from stores in which \<^verbatim>\<open>adapter.get\<close> finds no record
  for the id and with the SQLite calls not failing. The record for the id is afterwards
  the second note when its \<^verbatim>\<open>updatedAt\<close> is strictly greater, and the first otherwise.
  So when the two \<^verbatim>\<open>updatedAt\<close> differ both orders leave the note with the greater one,
  and when they are equal each order leaves the note it pushed first.
\<close>

theorem last_write_wins_two_pushes:
  assumes "user_uid usr = Some c" and "c \<noteq> []"
    and "raw_id r1 = Some i" and "raw_id r2 = Some i"
    and "fst (dual_get F i S) = Inr None"
    and "\<not> db_get_fails F i" and "\<not> db_run_fails F n1" and "\<not> db_run_fails F n2"
    and "n1 = normalizeNoteInput r1 usr a1" and "n2 = normalizeNoteInput r2 usr a2"
  shows "fst (dual_get F i (push_then F usr a1 r1 a2 r2 S)) =
           Inr (Some (if updatedAt n1 < updatedAt n2 then n2 else n1)) \<and>
         fst (dual_get F i (push_then F usr a2 r2 a1 r1 S)) =
           Inr (Some (if updatedAt n2 < updatedAt n1 then n1 else n2))"
  using assms push_then_record [of usr c r1 i r2 F S a1 a2]
        push_then_record [of usr c r2 i r1 F S a2 a1]
  by simp

theorem last_write_wins_two_pushes_witness:
  "fst (dual_get no_faults ''n1'' empty_stores) = Inr None \<and>
   fst (dual_get no_faults ''n1''
          (push_then no_faults \<lparr>user_uid = Some ''u1''\<rparr> (amb0 0) (mk_raw ''n1'' ''A'' 100)
             (amb0 1) (mk_raw ''n1'' ''D'' 200) empty_stores)) =
     Inr (Some (mk_note ''n1'' ''u1'' ''D'' 200)) \<and>
   fst (dual_get no_faults ''n1''
          (push_then no_faults \<lparr>user_uid = Some ''u1''\<rparr> (amb0 1) (mk_raw ''n1'' ''D'' 200)
             (amb0 0) (mk_raw ''n1'' ''A'' 100) empty_stores)) =
     Inr (Some (mk_note ''n1'' ''u1'' ''D'' 200))"
proof -
  let ?usr = "\<lparr>user_uid = Some ''u1''\<rparr>"
  have h1: "user_uid ?usr = Some ''u1''" by simp
  have h2: "''u1'' \<noteq> []" by simp
  have h3: "raw_id (mk_raw ''n1'' ''A'' 100) = Some ''n1''" by (simp add: mk_raw_def)
  have h4: "raw_id (mk_raw ''n1'' ''D'' 200) = Some ''n1''" by (simp add: mk_raw_def)
  have h5: "fst (dual_get no_faults ''n1'' empty_stores) = Inr None"
    by (simp add: dual_get_def sqlite_get_def no_faults_def empty_stores_def)
  have h6: "\<not> db_get_fails no_faults ''n1''" by (simp add: no_faults_def)
  have h7: "\<not> db_run_fails no_faults (mk_note ''n1'' ''u1'' ''A'' 100)" by (simp add: no_faults_def)
  have h8: "\<not> db_run_fails no_faults (mk_note ''n1'' ''u1'' ''D'' 200)" by (simp add: no_faults_def)
  have h9: "mk_note ''n1'' ''u1'' ''A'' 100 = normalizeNoteInput (mk_raw ''n1'' ''A'' 100) ?usr (amb0 0)"
    by (simp add: mk_note_def normalizeNoteInput_def mk_raw_def nullish_def)
  have h10: "mk_note ''n1'' ''u1'' ''D'' 200 = normalizeNoteInput (mk_raw ''n1'' ''D'' 200) ?usr (amb0 1)"
    by (simp add: mk_note_def normalizeNoteInput_def mk_raw_def nullish_def)
  have lt: "updatedAt (mk_note ''n1'' ''u1'' ''A'' 100) < updatedAt (mk_note ''n1'' ''u1'' ''D'' 200)"
    by (simp add: mk_note_def)
  from last_write_wins_two_pushes [OF h1 h2 h3 h4 h5 h6 h7 h8 h9 h10] lt h5
  show ?thesis by simp
qed

text \<open>
  The claim as stated fails for two distinct notes with the same \<^verbatim>\<open>updatedAt\<close>: the
  final record is the note pushed first, so it is not the same in the two orders.
\<close>

theorem equal_updatedAt_order_counterexample:
  "fst (dual_get no_faults ''n1''
          (push_then no_faults \<lparr>user_uid = Some ''u1''\<rparr> (amb0 0) (mk_raw ''n1'' ''A'' 100)
             (amb0 1) (mk_raw ''n1'' ''B'' 100) empty_stores)) =
     Inr (Some (mk_note ''n1'' ''u1'' ''A'' 100)) \<and>
   fst (dual_get no_faults ''n1''
          (push_then no_faults \<lparr>user_uid = Some ''u1''\<rparr> (amb0 1) (mk_raw ''n1'' ''B'' 100)
             (amb0 0) (mk_raw ''n1'' ''A'' 100) empty_stores)) =
     Inr (Some (mk_note ''n1'' ''u1'' ''B'' 100)) \<and>
   mk_note ''n1'' ''u1'' ''A'' 100 \<noteq> mk_note ''n1'' ''u1'' ''B'' 100"
  by (simp add: push_then_def push_note_def dual_get_def dual_upsert_def sqlite_upsert_def
        sqlite_get_def file_upsert_def put_by_id_def normalizeNoteInput_def nullish_def
        row_of_def truthy_str_def
        no_faults_def empty_stores_def mk_raw_def mk_note_def amb0_def Let_def)





section \<open>Merged search results\<close>

text \<open>
  Claim C4: for every filter, with ids unique within the Primary Store and within the
  Remote Replica, the merged result of \<^verbatim>\<open>find\<close> holds at most one record per id, holds
  every record of the local result, and any record of the merged result with the id of a
  local one is that local record: a remote copy never takes its place, whatever its
  \<^verbatim>\<open>updatedAt\<close>.
\<close>

theorem merge_keeps_local_copy:
  assumes "distinct (map nid (primary S))"
    and "case remote S of None \<Rightarrow> True | Some docs \<Rightarrow> distinct (map nid docs)"
    and "sqlite_find F f (primary S) = Inr localNotes"
    and "dual_find F f S = (Inr merged, S')"
  shows "distinct (map nid merged) \<and> set localNotes \<subseteq> set merged \<and>
         (\<forall>m\<in>set merged. \<forall>l\<in>set localNotes. nid m = nid l \<longrightarrow> m = l)"
proof -
  let ?add = "remote_additions F f S localNotes"
  have loc: "localNotes = sort_updatedAt_desc (filter (sqlite_where f) (primary S))"
    using assms(3) by (rule sqlite_find_result)
  have dl: "distinct (map nid localNotes)"
    using assms(1) by (simp add: loc distinct_ids_sort_updatedAt_desc distinct_map_filter)
  have da: "distinct (map nid ?add)"
    using assms(2)
    by (cases "remote S") (simp_all add: remote_additions_def filteredRemote_def Let_def distinct_map_filter)
  have na: "\<forall>a\<in>set ?add. nid a \<notin> set (map nid localNotes)"
    by (cases "remote S") (simp_all add: remote_additions_def)
  have d: "distinct (map nid (localNotes @ ?add))"
    using dl da na by (rule distinct_ids_append)
  have m: "merged = (if remote S = None \<or> fire_query_fails F f then localNotes
                     else sort_updatedAt_desc (localNotes @ ?add))"
    using dual_find_result [OF assms(3)] assms(4) by simp
  have c1: "distinct (map nid merged)"
    using m d dl by (simp add: distinct_ids_sort_updatedAt_desc del: map_append)
  have c2: "set localNotes \<subseteq> set merged" using m by auto
  have c3: "\<forall>m\<in>set merged. \<forall>l\<in>set localNotes. nid m = nid l \<longrightarrow> m = l"
  proof (intro ballI impI)
    fix m l
    assume a: "m \<in> set merged" and b: "l \<in> set localNotes" and c: "nid m = nid l"
    from b c2 have b': "l \<in> set merged" by (rule subsetD [rotated])
    show "m = l" by (rule same_id_same_note [OF c1 a b' c])
  qed
  show ?thesis by (intro conjI) (fact c1, fact c2, fact c3)
qed

theorem merge_keeps_local_copy_witness:
  "distinct (map nid (primary store_n1_both)) \<and>
   sqlite_find no_faults filters_u1 (primary store_n1_both) = Inr [mk_note ''n1'' ''u1'' ''local'' 100] \<and>
   fst (dual_find no_faults filters_u1 store_n1_both) =
     Inr [mk_note ''n1'' ''u1'' ''local'' 100, mk_note ''n2'' ''u1'' ''other'' 50] \<and>
   mk_note ''n1'' ''u1'' ''remote'' 200 \<in> set (the (remote store_n1_both)) \<and>
   mk_note ''n1'' ''u1'' ''remote'' 200 \<notin>
     set [mk_note ''n1'' ''u1'' ''local'' 100, mk_note ''n2'' ''u1'' ''other'' 50]"
proof -
  let ?loc = "mk_note ''n1'' ''u1'' ''local'' 100"
  let ?out = "[?loc, mk_note ''n2'' ''u1'' ''other'' 50]"
  have h1: "distinct (map nid (primary store_n1_both))"
    by (simp add: store_n1_both_def mk_note_def)
  have h2: "case remote store_n1_both of None \<Rightarrow> True | Some docs \<Rightarrow> distinct (map nid docs)"
    by (simp add: store_n1_both_def mk_note_def)
  have h3: "sqlite_find no_faults filters_u1 (primary store_n1_both) = Inr [?loc]"
    by (simp add: sqlite_find_def sqlite_where_def sort_updatedAt_desc_def truthy_str_def
          no_faults_def filters_u1_def store_n1_both_def mk_note_def)
  have add: "remote_additions no_faults filters_u1 store_n1_both [?loc] =
               [mk_note ''n2'' ''u1'' ''other'' 50]"
    by (simp add: remote_additions_def filteredRemote_def matchesFilters_def truthy_str_def Let_def
          filters_u1_def mk_note_def store_n1_both_def no_faults_def)
  have r: "fst (dual_find no_faults filters_u1 store_n1_both) = Inr ?out"
    using dual_find_result [OF h3]
    by (simp add: add) (simp add: store_n1_both_def no_faults_def sort_updatedAt_desc_def mk_note_def)
  then have h4: "dual_find no_faults filters_u1 store_n1_both =
                   (Inr ?out, snd (dual_find no_faults filters_u1 store_n1_both))"
    by (metis prod.collapse)
  from merge_keeps_local_copy [OF h1 h2 h3 h4]
  have "\<forall>m\<in>set ?out. \<forall>l\<in>set [?loc]. nid m = nid l \<longrightarrow> m = l" by blast
  moreover have "nid (mk_note ''n1'' ''u1'' ''remote'' 200) = nid ?loc" by (simp add: mk_note_def)
  moreover have "mk_note ''n1'' ''u1'' ''remote'' 200 \<noteq> ?loc" by (simp add: mk_note_def)
  ultimately have nin: "mk_note ''n1'' ''u1'' ''remote'' 200 \<notin> set ?out"
    by (metis list.set_intros(1))
  have rin: "mk_note ''n1'' ''u1'' ''remote'' 200 \<in> set (the (remote store_n1_both))"
    by (simp add: store_n1_both_def)
  show ?thesis by (intro conjI) (fact h1, fact h3, fact r, fact rin, fact nin)
qed

text \<open>
  Claim C7, as the code has it: the merged result is sorted by \<^verbatim>\<open>updatedAt\<close>, greatest
  first, and the sort is stable. Records with the same \<^verbatim>\<open>updatedAt\<close> are not ordered by
  id: they stay in the order in which they were merged, the local records in the order of
  the table and after them the remote records that were appended.
\<close>

theorem find_order_stable:
  assumes "dual_find F f S = (Inr out, S')"
    and "sqlite_find F f (primary S) = Inr localNotes"
  shows "sorted_wrt (\<lambda>a b. updatedAt b \<le> updatedAt a) out \<and>
         (\<forall>t. filter (\<lambda>n. updatedAt n = t) out =
                filter (\<lambda>n. updatedAt n = t) (filter (sqlite_where f) (primary S)) @
                filter (\<lambda>n. updatedAt n = t) (remote_additions F f S localNotes))"
proof -
  let ?add = "remote_additions F f S localNotes"
  let ?rows = "filter (sqlite_where f) (primary S)"
  have loc: "localNotes = sort_updatedAt_desc ?rows"
    using assms(2) by (rule sqlite_find_result)
  have out: "out = (if remote S = None \<or> fire_query_fails F f then localNotes
                    else sort_updatedAt_desc (localNotes @ ?add))"
    using dual_find_result [OF assms(2)] assms(1) by simp
  have none: "remote S = None \<or> fire_query_fails F f \<Longrightarrow> ?add = []"
    by (cases "remote S") (simp_all add: remote_additions_def)
  have s: "sorted_wrt (\<lambda>a b. updatedAt b \<le> updatedAt a) out"
    by (simp add: out loc sorted_sort_updatedAt_desc)
  have st: "filter (\<lambda>n. updatedAt n = t) out =
              filter (\<lambda>n. updatedAt n = t) ?rows @ filter (\<lambda>n. updatedAt n = t) ?add" for t
  proof (cases "remote S = None \<or> fire_query_fails F f")
    case True
    have e: "?add = []" by (rule none [OF True])
    from True have o: "out = localNotes" by (simp add: out)
    have "filter (\<lambda>n. updatedAt n = t) out = filter (\<lambda>n. updatedAt n = t) ?rows"
      unfolding o by (simp only: loc stable_sort_updatedAt_desc)
    then show ?thesis by (simp only: e filter.simps append_Nil2)
  next
    case False
    have "out = sort_updatedAt_desc (localNotes @ ?add)"
      by (subst out) (simp only: False if_False)
    then have "filter (\<lambda>n. updatedAt n = t) out =
                 filter (\<lambda>n. updatedAt n = t) localNotes @ filter (\<lambda>n. updatedAt n = t) ?add"
      by (simp only: stable_sort_updatedAt_desc filter_append)
    also have "filter (\<lambda>n. updatedAt n = t) localNotes = filter (\<lambda>n. updatedAt n = t) ?rows"
      by (simp only: loc stable_sort_updatedAt_desc)
    finally show ?thesis .
  qed
  show ?thesis by (intro conjI allI) (fact s, fact st)
qed

theorem find_order_stable_witness:
  "sqlite_find no_faults filters_u1 (primary store_b_local_a_remote) =
     Inr [mk_note ''b'' ''u1'' ''local'' 100] \<and>
   sorted_wrt (\<lambda>a b. updatedAt b \<le> updatedAt a)
     (case fst (dual_find no_faults filters_u1 store_b_local_a_remote) of Inr out \<Rightarrow> out | Inl e \<Rightarrow> []) \<and>
   filter (\<lambda>n. updatedAt n = 100)
     (case fst (dual_find no_faults filters_u1 store_b_local_a_remote) of Inr out \<Rightarrow> out | Inl e \<Rightarrow> []) =
     [mk_note ''b'' ''u1'' ''local'' 100, mk_note ''a'' ''u1'' ''remote'' 100]"
proof -
  let ?S = store_b_local_a_remote
  let ?b = "mk_note ''b'' ''u1'' ''local'' 100" and ?a = "mk_note ''a'' ''u1'' ''remote'' 100"
  have h2: "sqlite_find no_faults filters_u1 (primary ?S) = Inr [?b]"
    by (rule conjunct1 [OF find_b_a])
  have add: "remote_additions no_faults filters_u1 ?S [?b] = [?a]"
    by (rule conjunct2 [OF find_b_a])
  obtain out S' where h1: "dual_find no_faults filters_u1 ?S = (Inr out, S')"
    using dual_find_result [OF h2] by (cases "dual_find no_faults filters_u1 ?S") auto
  have rows: "filter (sqlite_where filters_u1) (primary ?S) = [?b]"
    by (simp add: sqlite_where_def truthy_str_def filters_u1_def store_b_local_a_remote_def mk_note_def)
  note t = find_order_stable [OF h1 h2]
  from t have s: "sorted_wrt (\<lambda>a b. updatedAt b \<le> updatedAt a) out" by (rule conjunct1)
  from t have "filter (\<lambda>n. updatedAt n = 100) out =
                filter (\<lambda>n. updatedAt n = 100) (filter (sqlite_where filters_u1) (primary ?S)) @
                filter (\<lambda>n. updatedAt n = 100) (remote_additions no_faults filters_u1 ?S [?b])"
    by (rule spec [OF conjunct2])
  then have f: "filter (\<lambda>n. updatedAt n = 100) out = [?b, ?a]"
    by (simp add: rows add) (simp add: mk_note_def)
  have o: "(case fst (dual_find no_faults filters_u1 ?S) of Inr out \<Rightarrow> out | Inl e \<Rightarrow> []) = out"
    by (simp add: h1)
  show ?thesis by (simp only: o) (intro conjI, fact h2, fact s, fact f)
qed

text \<open>
  The claim as stated fails: a local note with id \<^verbatim>\<open>b\<close> and a remote note with id \<^verbatim>\<open>a\<close>
  have the same \<^verbatim>\<open>updatedAt\<close>, and the result lists \<^verbatim>\<open>b\<close> before \<^verbatim>\<open>a\<close>.
\<close>

theorem find_ties_not_by_id_counterexample:
  "fst (dual_find no_faults filters_u1 store_b_local_a_remote) =
     Inr [mk_note ''b'' ''u1'' ''local'' 100, mk_note ''a'' ''u1'' ''remote'' 100] \<and>
   updatedAt (mk_note ''b'' ''u1'' ''local'' 100) = updatedAt (mk_note ''a'' ''u1'' ''remote'' 100) \<and>
   (of_char (CHR ''a'') :: nat) < of_char (CHR ''b'')"
proof -
  have r: "fst (dual_find no_faults filters_u1 store_b_local_a_remote) =
     Inr [mk_note ''b'' ''u1'' ''local'' 100, mk_note ''a'' ''u1'' ''remote'' 100]"
    using dual_find_result [OF conjunct1 [OF find_b_a]]
    by (simp add: conjunct2 [OF find_b_a])
       (simp add: store_b_local_a_remote_def no_faults_def sort_updatedAt_desc_def mk_note_def)
  have u: "updatedAt (mk_note ''b'' ''u1'' ''local'' 100) = updatedAt (mk_note ''a'' ''u1'' ''remote'' 100)"
    by (simp add: mk_note_def)
  have c: "(of_char (CHR ''a'') :: nat) < of_char (CHR ''b'')" by simp
  show ?thesis by (intro conjI) (fact r, fact u, fact c)
qed

section \<open>Pull\<close>

text \<open>
  Claim C5, as the code has it. For an authenticated caller \<open>c\<close> and \<open>L\<close> the value of
  \<^verbatim>\<open>lastSync\<close> (0 when the parameter is missing), with the SQLite query not failing, pull
  answers with exactly these notes, deleted or not: the records of the Primary Store owned
  by \<open>c\<close> whose \<^verbatim>\<open>updatedAt\<close> is strictly greater than \<open>L\<close>, and all records owned by
  \<open>c\<close> when \<open>L\<close> is 0; and, when the Remote Replica answers, its documents that pass the
  same test and whose id is not that of a local record passing it. In particular a record
  of the Primary Store owned by \<open>c\<close>, tombstone or not, is in the answer exactly when
  \<open>L = 0\<close> or \<open>L\<close> is less than its \<^verbatim>\<open>updatedAt\<close>.
\<close>

theorem pull_returns_owned_newer:
  assumes "user_uid usr = Some c" and "c \<noteq> []"
    and "\<not> db_all_fails F (pull_filters usr ls)"
    and "L = nullish ls 0"
  shows "\<exists>notes S'.
           pull F usr ls S = (Pull_ok notes, S') \<and>
           (\<forall>x. x \<in> set notes \<longleftrightarrow>
                (x \<in> set (primary S) \<and> uid x = Some c \<and> (L = 0 \<or> L < updatedAt x)) \<or>
                (\<exists>docs. remote S = Some docs \<and> \<not> fire_query_fails F (pull_filters usr ls) \<and>
                        x \<in> set docs \<and> uid x = Some c \<and> (L = 0 \<or> L < updatedAt x) \<and>
                        (\<forall>r\<in>set (primary S).
                           uid r = Some c \<and> (L = 0 \<or> L < updatedAt r) \<longrightarrow> nid r \<noteq> nid x))) \<and>
           (\<forall>r\<in>set (primary S). uid r = Some c \<longrightarrow>
                (r \<in> set notes \<longleftrightarrow> L = 0 \<or> L < updatedAt r))"
proof -
  let ?f = "pull_filters usr ls"
  let ?P = "\<lambda>x. uid x = Some c \<and> (L = 0 \<or> L < updatedAt x)"
  let ?loc = "sort_updatedAt_desc (filter (sqlite_where ?f) (primary S))"
  have sf: "sqlite_find F ?f (primary S) = Inr ?loc"
    using assms(3) by (simp add: sqlite_find_def)
  have sl: "set ?loc = {x \<in> set (primary S). ?P x}"
    by (simp add: sqlite_where_pull [OF assms(1,2)] assms(4))
  obtain out where n: "fst (dual_find F ?f S) = Inr out"
    and nd: "out = (if remote S = None \<or> fire_query_fails F ?f then ?loc
                     else sort_updatedAt_desc (?loc @ remote_additions F ?f S ?loc))"
    using dual_find_result [OF sf] by simp
  have p: "pull F usr ls S = (Pull_ok out, snd (dual_find F ?f S))"
    using n by (cases "dual_find F ?f S") (simp add: pull_def)
  have ids: "(nid x \<notin> set (map nid ?loc)) = (\<forall>r\<in>set (primary S). ?P r \<longrightarrow> nid r \<noteq> nid x)" for x
  proof
    assume a: "nid x \<notin> set (map nid ?loc)"
    show "\<forall>r\<in>set (primary S). ?P r \<longrightarrow> nid r \<noteq> nid x"
    proof (intro ballI impI notI)
      fix r assume r: "r \<in> set (primary S)" "?P r" "nid r = nid x"
      from r(1,2) have "r \<in> set ?loc" by (simp only: sl mem_Collect_eq)
      then have "nid r \<in> set (map nid ?loc)" by (simp only: set_map) (rule imageI)
      with r(3) a show False by simp
    qed
  next
    assume b: "\<forall>r\<in>set (primary S). ?P r \<longrightarrow> nid r \<noteq> nid x"
    show "nid x \<notin> set (map nid ?loc)"
    proof
      assume "nid x \<in> set (map nid ?loc)"
      then obtain r where r: "r \<in> set ?loc" "nid r = nid x"
        by (auto simp only: set_map image_iff)
      from r(1) have "r \<in> set (primary S) \<and> ?P r" by (simp only: sl mem_Collect_eq)
      with b have "nid r \<noteq> nid x" by simp
      with r(2) show False by simp
    qed
  qed
  have sa: "x \<in> set (remote_additions F ?f S ?loc) \<longleftrightarrow>
              (\<exists>docs. remote S = Some docs \<and> \<not> fire_query_fails F ?f \<and> x \<in> set docs \<and> ?P x \<and>
                      (\<forall>r\<in>set (primary S). ?P r \<longrightarrow> nid r \<noteq> nid x))" for x
  proof (cases "remote S")
    case None
    then show ?thesis by (simp add: remote_additions_def)
  next
    case (Some docs)
    show ?thesis
    proof (cases "fire_query_fails F ?f")
      case True
      with Some show ?thesis by (simp add: remote_additions_def)
    next
      case False
      have "x \<in> set (remote_additions F ?f S ?loc) \<longleftrightarrow>
              x \<in> set (filteredRemote ?f docs) \<and> nid x \<notin> set (map nid ?loc)"
        using Some False by (simp add: remote_additions_def)
      also have "\<dots> \<longleftrightarrow> (x \<in> set docs \<and> ?P x) \<and> (\<forall>r\<in>set (primary S). ?P r \<longrightarrow> nid r \<noteq> nid x)"
        by (simp only: ids filteredRemote_pull [OF assms(1,2)] assms(4) [symmetric]) simp
      finally show ?thesis using Some False by simp
    qed
  qed
  have mem: "x \<in> set out \<longleftrightarrow>
                (x \<in> set (primary S) \<and> ?P x) \<or>
                (\<exists>docs. remote S = Some docs \<and> \<not> fire_query_fails F ?f \<and> x \<in> set docs \<and> ?P x \<and>
                        (\<forall>r\<in>set (primary S). ?P r \<longrightarrow> nid r \<noteq> nid x))" for x
  proof (cases "remote S = None \<or> fire_query_fails F ?f")
    case True
    then have o: "out = ?loc" by (simp add: nd)
    from True have ne: "\<not> (\<exists>docs. remote S = Some docs \<and> \<not> fire_query_fails F ?f \<and> x \<in> set docs \<and> ?P x \<and>
                        (\<forall>r\<in>set (primary S). ?P r \<longrightarrow> nid r \<noteq> nid x))" by auto
    show ?thesis by (simp only: ne simp_thms o sl mem_Collect_eq)
  next
    case False
    have "out = sort_updatedAt_desc (?loc @ remote_additions F ?f S ?loc)"
      by (subst nd) (simp only: False if_False)
    then have "x \<in> set out \<longleftrightarrow> x \<in> set ?loc \<or> x \<in> set (remote_additions F ?f S ?loc)"
      by (simp only: set_sort_updatedAt_desc set_append Un_iff)
    then show ?thesis by (simp only: sa sl mem_Collect_eq)
  qed
  have tomb: "\<forall>r\<in>set (primary S). uid r = Some c \<longrightarrow> (r \<in> set out \<longleftrightarrow> L = 0 \<or> L < updatedAt r)"
  proof (intro ballI impI)
    fix r assume r: "r \<in> set (primary S)" and o: "uid r = Some c"
    show "r \<in> set out \<longleftrightarrow> L = 0 \<or> L < updatedAt r"
      using r o by (subst mem) blast
  qed
  have "pull F usr ls S = (Pull_ok out, snd (dual_find F ?f S)) \<and>
        (\<forall>x. x \<in> set out \<longleftrightarrow>
                (x \<in> set (primary S) \<and> ?P x) \<or>
                (\<exists>docs. remote S = Some docs \<and> \<not> fire_query_fails F ?f \<and> x \<in> set docs \<and> ?P x \<and>
                        (\<forall>r\<in>set (primary S). ?P r \<longrightarrow> nid r \<noteq> nid x))) \<and>
        (\<forall>r\<in>set (primary S). uid r = Some c \<longrightarrow> (r \<in> set out \<longleftrightarrow> L = 0 \<or> L < updatedAt r))"
    by (intro conjI allI) (fact p, fact mem, fact tomb)
  then show ?thesis unfolding conj_assoc by (intro exI)
qed

theorem pull_returns_owned_newer_witness:
  "(\<exists>ns S'. pull no_faults \<lparr>user_uid = Some ''u1''\<rparr> (Some 100) store_tombstone_500 = (Pull_ok ns, S') \<and>
             tombstone_500 \<in> set ns) \<and>
   (\<exists>ns S'. pull no_faults \<lparr>user_uid = Some ''u1''\<rparr> (Some 500) store_tombstone_500 = (Pull_ok ns, S') \<and>
             tombstone_500 \<notin> set ns) \<and>
   isDeleted tombstone_500 \<and> updatedAt tombstone_500 = 500"
proof -
  let ?usr = "\<lparr>user_uid = Some ''u1''\<rparr>"
  have h1: "user_uid ?usr = Some ''u1''" by simp
  have h2: "''u1'' \<noteq> []" by simp
  have h3: "\<not> db_all_fails no_faults (pull_filters ?usr ls)" for ls by (simp add: no_faults_def)
  have m: "tombstone_500 \<in> set (primary store_tombstone_500)" by (simp add: store_tombstone_500_def)
  have o: "uid tombstone_500 = Some ''u1''" by (simp add: tombstone_500_def mk_note_def)
  have u: "updatedAt tombstone_500 = 500" by (simp add: tombstone_500_def mk_note_def)
  have d: "isDeleted tombstone_500" by (simp add: tombstone_500_def)
  from pull_returns_owned_newer [OF h1 h2 h3 refl, of "Some 100" store_tombstone_500]
  obtain ns S' where p: "pull no_faults ?usr (Some 100) store_tombstone_500 = (Pull_ok ns, S')"
    and t: "\<forall>r\<in>set (primary store_tombstone_500). uid r = Some ''u1'' \<longrightarrow>
              (r \<in> set ns \<longleftrightarrow> nullish (Some 100) (0::int) = 0 \<or> nullish (Some 100) 0 < updatedAt r)"
    by blast
  from t m o have "tombstone_500 \<in> set ns \<longleftrightarrow> nullish (Some 100) (0::int) = 0 \<or> nullish (Some 100) 0 < updatedAt tombstone_500"
    by (simp only: bspec [OF t m, rule_format])
  then have "tombstone_500 \<in> set ns" by (simp add: nullish_def u)
  with p have a: "\<exists>ns S'. pull no_faults ?usr (Some 100) store_tombstone_500 = (Pull_ok ns, S') \<and>
             tombstone_500 \<in> set ns" by (intro exI conjI)
  from pull_returns_owned_newer [OF h1 h2 h3 refl, of "Some 500" store_tombstone_500]
  obtain ns2 S2 where p2: "pull no_faults ?usr (Some 500) store_tombstone_500 = (Pull_ok ns2, S2)"
    and t2: "\<forall>r\<in>set (primary store_tombstone_500). uid r = Some ''u1'' \<longrightarrow>
              (r \<in> set ns2 \<longleftrightarrow> nullish (Some 500) (0::int) = 0 \<or> nullish (Some 500) 0 < updatedAt r)"
    by blast
  from t2 m o have "tombstone_500 \<in> set ns2 \<longleftrightarrow> nullish (Some 500) (0::int) = 0 \<or> nullish (Some 500) 0 < updatedAt tombstone_500"
    by (simp only: bspec [OF t2 m, rule_format])
  then have "tombstone_500 \<notin> set ns2" by (simp add: nullish_def u)
  with p2 have b: "\<exists>ns S'. pull no_faults ?usr (Some 500) store_tombstone_500 = (Pull_ok ns, S') \<and>
             tombstone_500 \<notin> set ns" by (intro exI conjI)
  show ?thesis by (intro conjI) (fact a, fact b, fact d, fact u)
qed

text \<open>
  The claim as stated fails for \<^verbatim>\<open>lastSync = 0\<close>: a tombstone with \<^verbatim>\<open>updatedAt = 0\<close> is
  returned although \<^verbatim>\<open>lastSync\<close> is not less than its \<^verbatim>\<open>updatedAt\<close>, since a filter
  \<^verbatim>\<open>updatedAfter: 0\<close> is falsy and does not filter.
\<close>

theorem pull_lastSync_zero_counterexample:
  "isDeleted tombstone_0 \<and> updatedAt tombstone_0 \<le> 0 \<and>
   pull no_faults \<lparr>user_uid = Some ''u1''\<rparr> (Some 0) store_tombstone_0 =
     (Pull_ok [tombstone_0], store_tombstone_0)"
  by (simp add: pull_def dual_find_def sqlite_find_def sqlite_where_def sort_updatedAt_desc_def
        pull_filters_def nullish_def truthy_str_def
        no_faults_def store_tombstone_0_def tombstone_0_def mk_note_def)

section \<open>Filters\<close>

text \<open>
  Claim C9, as the code has it: a note matches a filter exactly when it satisfies every
  predicate that the filter supplies with a truthy value, all of them together; a field
  that is an empty string, the number 0 or an empty list of tags counts as not supplied.
  With tags supplied the note must have every one of them; with a text query the query
  must be, letter case apart, a substring of the title or of the body. Notes whose date
  is 0 are left aside when a date bound is supplied.
\<close>

theorem matchesFilters_truthy_spec:
  assumes "date n = Some 0 \<longrightarrow> \<not> truthy_num (f_dateFrom f) \<and> \<not> truthy_num (f_dateTo f)"
  shows "matchesFilters n f = spec_matches n (truthy_fields f)"
proof -
  let ?g = "truthy_fields f"
  have c_del: "(\<not> (\<not> f_includeDeleted f \<and> isDeleted n)) = (f_includeDeleted ?g \<or> \<not> isDeleted n)"
    by (simp add: truthy_fields_def)
  have c_uid: "(\<not> (truthy_str (f_uid f) \<and> uid n \<noteq> f_uid f)) =
                 (case f_uid ?g of None \<Rightarrow> True | Some x \<Rightarrow> uid n = Some x)"
    by (cases "f_uid f") (auto simp: truthy_fields_def truthy_str_def)
  have c_q: "(\<not> (case f_q f of None \<Rightarrow> False
          | Some s \<Rightarrow> s \<noteq> [] \<and>
              \<not> (str_includes (toLowerCase (title n)) (toLowerCase s) \<or>
                 str_includes (toLowerCase (body n)) (toLowerCase s)))) =
             (case f_q ?g of None \<Rightarrow> True
              | Some s \<Rightarrow> sublist (toLowerCase s) (toLowerCase (title n)) \<or>
                  sublist (toLowerCase s) (toLowerCase (body n)))"
    by (cases "f_q f") (auto simp: truthy_fields_def truthy_str_def str_includes_sublist)
  have c_upd: "(\<not> (case f_updatedAfter f of None \<Rightarrow> False | Some t \<Rightarrow> t \<noteq> 0 \<and> updatedAt n \<le> t)) =
               (case f_updatedAfter ?g of None \<Rightarrow> True | Some t \<Rightarrow> t < updatedAt n)"
    by (cases "f_updatedAfter f") (auto simp: truthy_fields_def truthy_num_def)
  have c_from: "(\<not> (case f_dateFrom f of None \<Rightarrow> False
          | Some d \<Rightarrow> d \<noteq> 0 \<and> \<not> (case date n of None \<Rightarrow> False | Some x \<Rightarrow> x \<noteq> 0 \<and> x \<ge> d))) =
               (case f_dateFrom ?g of None \<Rightarrow> True
                | Some d \<Rightarrow> (case date n of None \<Rightarrow> False | Some x \<Rightarrow> d \<le> x))"
    using assms
    by (cases "f_dateFrom f"; cases "date n") (auto simp: truthy_fields_def truthy_num_def)
  have c_to: "(\<not> (case f_dateTo f of None \<Rightarrow> False
          | Some d \<Rightarrow> d \<noteq> 0 \<and> \<not> (case date n of None \<Rightarrow> False | Some x \<Rightarrow> x \<noteq> 0 \<and> x \<le> d))) =
               (case f_dateTo ?g of None \<Rightarrow> True
                | Some d \<Rightarrow> (case date n of None \<Rightarrow> False | Some x \<Rightarrow> x \<le> d))"
    using assms
    by (cases "f_dateTo f"; cases "date n") (auto simp: truthy_fields_def truthy_num_def)
  have c_time: "(\<not> (truthy_str (f_time f) \<and> time n \<noteq> f_time f)) =
                 (case f_time ?g of None \<Rightarrow> True | Some s \<Rightarrow> time n = Some s)"
    by (cases "f_time f") (auto simp: truthy_fields_def truthy_str_def)
  have c_tags: "(\<not> (case f_tags f of None \<Rightarrow> False | Some ts \<Rightarrow> ts \<noteq> [] \<and> \<not> tags_loop ts (tags n))) =
                 (case f_tags ?g of None \<Rightarrow> True | Some ts \<Rightarrow> set ts \<subseteq> set (tags n))"
    by (cases "f_tags f") (auto simp: truthy_fields_def tags_loop_subset)
  show ?thesis
    unfolding matchesFilters_conj spec_matches_def
    by (simp only: c_del c_uid c_q c_upd c_from c_to c_time c_tags) (simp only: conj_ac)
qed

theorem matchesFilters_truthy_spec_witness:
  "date (note_shopping [''shop'', ''home'', ''list'']) \<noteq> Some 0 \<and>
   matchesFilters (note_shopping [''shop'', ''home'', ''list'']) filter_tags_text \<and>
   date (note_shopping [''home'']) \<noteq> Some 0 \<and>
   \<not> matchesFilters (note_shopping [''home'']) filter_tags_text"
proof -
  have d: "date (note_shopping ts) \<noteq> Some 0" for ts
    by (simp add: note_shopping_def mk_note_def)
  have h: "date (note_shopping ts) = Some 0 \<longrightarrow>
             \<not> truthy_num (f_dateFrom filter_tags_text) \<and> \<not> truthy_num (f_dateTo filter_tags_text)" for ts
    using d [of ts] by simp
  have s1: "spec_matches (note_shopping [''shop'', ''home'', ''list'']) (truthy_fields filter_tags_text)"
    by (simp add: spec_matches_def truthy_fields_def truthy_str_def truthy_num_def
          filter_tags_text_def note_shopping_def mk_note_def lower_milk sublist_code)
  have s2: "\<not> spec_matches (note_shopping [''home'']) (truthy_fields filter_tags_text)"
    by (simp add: spec_matches_def truthy_fields_def truthy_str_def truthy_num_def
          filter_tags_text_def note_shopping_def mk_note_def)
  have m1: "matchesFilters (note_shopping [''shop'', ''home'', ''list'']) filter_tags_text"
    using matchesFilters_truthy_spec [OF h, of "[''shop'', ''home'', ''list'']"] s1 by simp
  have m2: "\<not> matchesFilters (note_shopping [''home'']) filter_tags_text"
    using matchesFilters_truthy_spec [OF h, of "[''home'']"] s2 by simp
  show ?thesis by (intro conjI) (fact d, fact m1, fact d, fact m2)
qed

text \<open>
  The claim as stated fails: the filter supplies \<^verbatim>\<open>updatedAfter: 0\<close> (as every pull
  without \<^verbatim>\<open>lastSync\<close> does), the note's \<^verbatim>\<open>updatedAt\<close> is 0, not strictly greater, and
  the note matches.
\<close>

theorem matchesFilters_updatedAfter_0_counterexample:
  "f_updatedAfter filter_updatedAfter_0 = Some 0 \<and>
   \<not> 0 < updatedAt (mk_note ''n1'' ''u1'' ''A'' 0) \<and>
   matchesFilters (mk_note ''n1'' ''u1'' ''A'' 0) filter_updatedAfter_0 \<and>
   \<not> spec_matches (mk_note ''n1'' ''u1'' ''A'' 0) filter_updatedAfter_0"
  by (simp add: matchesFilters_def spec_matches_def truthy_str_def filter_updatedAfter_0_def mk_note_def)

end
